theory Spec2Isabelle
  imports Main "HOL-Library.Sublist"
begin

section \<open>JavaScript strings and the string primitives the loader uses\<close>

text \<open>
  A JavaScript string is a sequence of UTF-16 code units. The model is \<^typ>\<open>string\<close>:
  a \<^typ>\<open>char\<close> stands for one code unit in the range 0..255, and strings with
  code units above 255 are outside the model. In that range the line terminators of
  ECMAScript are LF and CR, and the white space matched by \<^verbatim>\<open>\s\<close> and removed by
  \<^verbatim>\<open>trim()\<close> is TAB, LF, VT, FF, CR, SPACE and NBSP.
\<close>

definition isLineTerminator :: "char \<Rightarrow> bool" where
  "isLineTerminator c = (c = CHR 0x0A \<or> c = CHR 0x0D)"

definition isWhiteSpace :: "char \<Rightarrow> bool" where
  "isWhiteSpace c =
     (c = CHR 0x09 \<or> c = CHR 0x0A \<or> c = CHR 0x0B \<or> c = CHR 0x0C \<or> c = CHR 0x0D
      \<or> c = CHR 0x20 \<or> c = CHR 0xA0)"

text \<open>The class \<^verbatim>\<open>[\t ]\<close>.\<close>

definition isTabOrSpace :: "char \<Rightarrow> bool" where
  "isTabOrSpace c = (c = CHR 0x09 \<or> c = CHR 0x20)"

text \<open>The class \<^verbatim>\<open>[a-z]\<close> (no \<^verbatim>\<open>i\<close> flag: the 26 ASCII letters).\<close>

definition isLowerAZ :: "char \<Rightarrow> bool" where
  "isLowerAZ c = (c \<in> set ''abcdefghijklmnopqrstuvwxyz'')"

text \<open>
  The class \<^verbatim>\<open>[^\3]\<close>. Inside a character class \<^verbatim>\<open>\3\<close> is not a
  backreference but the legacy octal escape of the code unit 3, so the class
  holds every code unit but U+0003: quotes, \<^verbatim>\<open>>\<close> and line breaks included.
\<close>

definition isNotOctal3 :: "char \<Rightarrow> bool" where
  "isNotOctal3 c = (c \<noteq> CHR 0x03)"

text \<open>\<^verbatim>\<open>String.prototype.trim\<close>.\<close>

definition trim :: "string \<Rightarrow> string" where
  "trim s = rev (dropWhile isWhiteSpace (rev (dropWhile isWhiteSpace s)))"

text \<open>\<^verbatim>\<open>s.split(d)\<close> for a one-character separator: never the empty array.\<close>

fun split_on :: "char \<Rightarrow> string \<Rightarrow> string list" where
  "split_on d [] = [[]]"
| "split_on d (c # cs) =
     (if c = d then [] # split_on d cs
      else (case split_on d cs of
              [] \<Rightarrow> [[c]]
            | w # ws \<Rightarrow> (c # w) # ws))"

text \<open>\<^verbatim>\<open>xs.join(sep)\<close>.\<close>

fun join :: "string \<Rightarrow> string list \<Rightarrow> string" where
  "join sep [] = []"
| "join sep [x] = x"
| "join sep (x # y # ys) = x @ sep @ join sep (y # ys)"

text \<open>\<^verbatim>\<open>haystack.indexOf(needle)\<close>: the first index, or -1.\<close>

fun indexOf :: "string \<Rightarrow> string \<Rightarrow> int" where
  "indexOf [] needle = (if needle = [] then 0 else - 1)"
| "indexOf (c # cs) needle =
     (if prefix needle (c # cs) then 0
      else (let r = indexOf cs needle in if r < 0 then - 1 else r + 1))"

text \<open>
  \<^verbatim>\<open>s.slice(start, end)\<close> and \<^verbatim>\<open>s.slice(start)\<close>: a negative argument counts
  from the end of the string, and both are clamped to the string.
\<close>

definition sliceIndex :: "string \<Rightarrow> int \<Rightarrow> nat" where
  "sliceIndex s i =
     (if i < 0 then nat (max (int (length s) + i) 0) else min (nat i) (length s))"

definition slice :: "string \<Rightarrow> int \<Rightarrow> int \<Rightarrow> string" where
  "slice s start end = take (sliceIndex s end - sliceIndex s start) (drop (sliceIndex s start) s)"

definition sliceFrom :: "string \<Rightarrow> int \<Rightarrow> string" where
  "sliceFrom s start = drop (sliceIndex s start) s"

text \<open>
  \<^verbatim>\<open>replacement.replace(/^/gm, whitespace)\<close>: with the \<^verbatim>\<open>m\<close> flag the assertion
  \<^verbatim>\<open>^\<close> holds at index 0 and after every line terminator, the end of the string
  included; the empty match at each such index is replaced by the white space.
\<close>

fun indentAfter :: "string \<Rightarrow> string \<Rightarrow> string" where
  "indentAfter ws [] = []"
| "indentAfter ws (c # cs) =
     (if isLineTerminator c then c # ws @ indentAfter ws cs else c # indentAfter ws cs)"

definition indentLines :: "string \<Rightarrow> string \<Rightarrow> string" where
  "indentLines ws s = ws @ indentAfter ws s"

section \<open>The tag pattern\<close>

text \<open>
  \<^verbatim>\<open>/(^[\t ]*)?<webpack-([a-z]+) src=("|')([^\3]+)\3\s*\/?>/mg\<close>

  A match carries \<^verbatim>\<open>match.index\<close>, \<^verbatim>\<open>match[0]\<close> (the whole tag), group 1 (the
  leading white space; the empty string stands for an empty or absent group, both
  falsy), group 2 (the verb) and group 4 (the \<^verbatim>\<open>src\<close> argument).
\<close>

record tag_match =
  index :: nat
  wholeTag :: string
  whitespace :: string
  func :: string
  src :: string

fun strip_prefix :: "string \<Rightarrow> string \<Rightarrow> string option" where
  "strip_prefix [] s = Some s"
| "strip_prefix (p # ps) [] = None"
| "strip_prefix (p # ps) (c # cs) = (if p = c then strip_prefix ps cs else None)"

text \<open>
  \<^verbatim>\<open>\s*\/?>\<close>: the number of code units it consumes. The white space is taken
  greedily; giving some of it back never helps, as what follows must be
  \<^verbatim>\<open>/\<close> or \<^verbatim>\<open>>\<close>.
\<close>

definition matchTail :: "string \<Rightarrow> nat option" where
  "matchTail t =
     (let n = length (takeWhile isWhiteSpace t) in
      case dropWhile isWhiteSpace t of
        [] \<Rightarrow> None
      | c # r \<Rightarrow>
          if c = CHR ''>'' then Some (n + 1)
          else if c = CHR ''/'' then
            (case r of [] \<Rightarrow> None | d # _ \<Rightarrow> if d = CHR ''>'' then Some (n + 2) else None)
          else None)"

text \<open>
  \<^verbatim>\<open>([^\3]+)\3\s*\/?>\<close> after the opening quote \<open>q\<close>: group 4 is greedy, so it is the
  longest non-empty run free of U+0003 that is followed by the quote \<open>q\<close> and the
  tail. The result is group 4 and the number of code units the tail consumes.
\<close>

fun matchSrc :: "char \<Rightarrow> string \<Rightarrow> (string \<times> nat) option" where
  "matchSrc q [] = None"
| "matchSrc q (c # t) =
     (if \<not> isNotOctal3 c then None
      else (case matchSrc q t of
              Some (u, n) \<Rightarrow> Some (c # u, n)
            | None \<Rightarrow>
                (case t of
                   [] \<Rightarrow> None
                 | d # t' \<Rightarrow>
                     if d = q then (case matchTail t' of None \<Rightarrow> None | Some n \<Rightarrow> Some ([c], n))
                     else None)))"

text \<open>The assertion \<^verbatim>\<open>^\<close> with the \<^verbatim>\<open>m\<close> flag, at index \<open>p\<close> of \<open>s\<close>.\<close>

definition atLineStart :: "string \<Rightarrow> nat \<Rightarrow> bool" where
  "atLineStart s p = (p = 0 \<or> (p \<le> length s \<and> isLineTerminator (s ! (p - 1))))"

text \<open>
  One attempt to match the pattern at index \<open>p\<close>. Group 1 takes part only at the
  start of a line, and then takes all the tabs and spaces there (the literal
  \<^verbatim>\<open><\<close> must follow); group 2 takes all the letters (a space must follow).
\<close>

definition execAt :: "string \<Rightarrow> nat \<Rightarrow> tag_match option" where
  "execAt s p =
     (let t = drop p s;
          ws = (if atLineStart s p then takeWhile isTabOrSpace t else []);
          t1 = drop (length ws) t
      in case strip_prefix ''<webpack-'' t1 of
           None \<Rightarrow> None
         | Some t2 \<Rightarrow>
             (let f = takeWhile isLowerAZ t2 in
              if f = [] then None
              else (case strip_prefix '' src='' (dropWhile isLowerAZ t2) of
                      None \<Rightarrow> None
                    | Some t4 \<Rightarrow>
                        (case t4 of
                           [] \<Rightarrow> None
                         | q # t5 \<Rightarrow>
                             if q \<noteq> CHR 0x22 \<and> q \<noteq> CHR 0x27 then None
                             else (case matchSrc q t5 of
                                     None \<Rightarrow> None
                                   | Some (u, n) \<Rightarrow>
                                       Some \<lparr> index = p,
                                              wholeTag = take (length ws + 9 + length f + 5 + 1
                                                               + length u + 1 + n) t,
                                              whitespace = ws,
                                              func = f,
                                              src = u \<rparr>)))))"

text \<open>
  \<^verbatim>\<open>Array.from(contents.matchAll(regexp))\<close>: the search for the next match starts
  where the previous match ended (one further after an empty match), and moves on
  by one index while the pattern does not match.
\<close>

function matchAllFrom :: "string \<Rightarrow> nat \<Rightarrow> tag_match list" where
  "matchAllFrom s p =
     (if length s < p then []
      else (case execAt s p of
              None \<Rightarrow> matchAllFrom s (p + 1)
            | Some m \<Rightarrow>
                m # matchAllFrom s (if wholeTag m = [] then p + 1 else p + length (wholeTag m))))"
  by pat_completeness auto
termination
  by (relation "measure (\<lambda>(s, p). length s + 1 - p)") (auto simp: neq_Nil_conv)

declare matchAllFrom.simps [simp del]

definition matchAll :: "string \<Rightarrow> tag_match list" where
  "matchAll s = matchAllFrom s 0"

section \<open>The loader's environment and effects\<close>

text \<open>
  What the loader reads from outside: the file system (\<^verbatim>\<open>fs.readFileSync\<close>,
  \<open>None\<close> when the read throws), the \<^verbatim>\<open>find\<close> process run by
  \<^verbatim>\<open>cp.execFileSync\<close> on a directory and a name pattern (its standard output,
  \<open>None\<close> when the call throws), and Node's \<^verbatim>\<open>path\<close> module.
\<close>

record env =
  readFileSync :: "string \<Rightarrow> string option"
  execFind :: "string \<Rightarrow> string \<Rightarrow> string option"
  path_resolve :: "string \<Rightarrow> string \<Rightarrow> string"
  path_dirname :: "string \<Rightarrow> string"
  path_extname :: "string \<Rightarrow> string"

datatype error =
    NoSuchInjectFunction string
  | NotAValidFilePath string
  | FailedToFindFiles string string
  | NoFilesMatched string string
  | FailedToGetContents string string
  | RangeError

text \<open>The lines written by \<^verbatim>\<open>console.log\<close> and \<^verbatim>\<open>console.error\<close>, as events.\<close>

datatype log_event =
    Inserting string string
  | Injecting nat string string string string
  | TagFailed string string nat error

text \<open>
  The effects of a run: the paths passed to \<^verbatim>\<open>this.addDependency\<close> and the
  console output, both in order.
\<close>

record state =
  deps :: "string list"
  console :: "log_event list"

definition addDependency :: "string \<Rightarrow> state \<Rightarrow> state" where
  "addDependency p st = st\<lparr>deps := deps st @ [p]\<rparr>"

definition console_write :: "log_event \<Rightarrow> state \<Rightarrow> state" where
  "console_write ev st = st\<lparr>console := console st @ [ev]\<rparr>"

section \<open>The verbs\<close>

text \<open>
  \<^verbatim>\<open>resourcePath.match(/\.([a-z]{3,4})$/)\<close>: group 1 when the path ends in a dot
  and three or four letters (no \<^verbatim>\<open>m\<close> flag: \<^verbatim>\<open>$\<close> is the end of the string).
  The leftmost match comes first, so four letters are tried before three.
\<close>

definition extensionMatch :: "string \<Rightarrow> string option" where
  "extensionMatch resourcePath =
     (let n = length resourcePath in
      if 5 \<le> n \<and> resourcePath ! (n - 5) = CHR ''.''
         \<and> list_all isLowerAZ (drop (n - 4) resourcePath)
      then Some (drop (n - 4) resourcePath)
      else if 4 \<le> n \<and> resourcePath ! (n - 4) = CHR ''.''
         \<and> list_all isLowerAZ (drop (n - 3) resourcePath)
      then Some (drop (n - 3) resourcePath)
      else None)"

definition wrapInCommentSyntax :: "string \<Rightarrow> string \<Rightarrow> error + string" where
  "wrapInCommentSyntax str resourcePath =
     (case extensionMatch resourcePath of
        Some ext \<Rightarrow>
          if ext = ''html'' then Inr (''<!-- '' @ str @ '' -->'')
          else Inr (''/* '' @ str @ '' */'')
      | None \<Rightarrow> Inl (NotAValidFilePath resourcePath))"

definition findMatchingFiles :: "env \<Rightarrow> string \<Rightarrow> string \<Rightarrow> error + string list" where
  "findMatchingFiles e pattern relativeTo =
     (case execFind e relativeTo pattern of
        Some out \<Rightarrow> Inr (split_on CHR 0x0A out)
      | None \<Rightarrow> Inl (FailedToFindFiles pattern relativeTo))"

definition importKeyword :: "env \<Rightarrow> string \<Rightarrow> string" where
  "importKeyword e resourcePath =
     (if path_extname e resourcePath \<in> set [''js'', ''ts'', ''tsx'', ''jsx'']
      then ''import'' else ''@import'')"

definition importLine :: "string \<Rightarrow> string \<Rightarrow> string" where
  "importLine imprt p = imprt @ '' '' @ [CHR 0x22] @ p @ [CHR 0x22] @ '';'' @ [CHR 0x0A]"

definition addImportStatements ::
  "env \<Rightarrow> string \<Rightarrow> string \<Rightarrow> state \<Rightarrow> (error + string) \<times> state" where
  "addImportStatements e pattern resourcePath st =
     (let relativeTo = path_dirname e resourcePath in
      case findMatchingFiles e pattern relativeTo of
        Inl err \<Rightarrow> (Inl err, st)
      | Inr files \<Rightarrow>
          if length files = 0 then (Inl (NoFilesMatched pattern relativeTo), st)
          else
            (let imprt = importKeyword e resourcePath;
                 replacement = concat (map (importLine imprt) files)
             in (Inr replacement,
                 console_write
                   (Injecting (length files) imprt resourcePath pattern
                      (join ([CHR 0x0A] @ ''    '') (split_on CHR 0x0A replacement))) st)))"

definition getFileContents ::
  "env \<Rightarrow> string \<Rightarrow> string \<Rightarrow> state \<Rightarrow> (error + string) \<times> state" where
  "getFileContents e getFrom insertInto st =
     (let st1 = console_write (Inserting getFrom insertInto) st;
          fullpath = path_resolve e insertInto getFrom
      in case readFileSync e fullpath of
           None \<Rightarrow> (Inl (FailedToGetContents getFrom insertInto), st1)
         | Some buf \<Rightarrow> (Inr (trim buf), addDependency fullpath st1))"

definition getInjectorFunc ::
  "string \<Rightarrow> error + (env \<Rightarrow> string \<Rightarrow> string \<Rightarrow> state \<Rightarrow> (error + string) \<times> state)" where
  "getInjectorFunc f =
     (if f = ''inject'' then Inr getFileContents
      else if f = ''import'' then Inr addImportStatements
      else Inl (NoSuchInjectFunction f))"

section \<open>The substitution pass\<close>

text \<open>
  The \<^verbatim>\<open>try\<close> block of the loop body: the verb's function is looked up and
  called on the tag's \<^verbatim>\<open>src\<close> and the resource path, and its result goes through
  the recursive call \<open>recur\<close> with \<^verbatim>\<open>src\<close> as the new resource path. \<open>Inl\<close> is
  a thrown error. The recursive call is a parameter; \<open>None\<close> stands for one that
  gives no result, which the loader's own recursion never does.
\<close>

definition tryBlock ::
  "(string \<Rightarrow> string \<Rightarrow> state \<Rightarrow> ((error + string) \<times> state) option) \<Rightarrow>
   env \<Rightarrow> string \<Rightarrow> tag_match \<Rightarrow> state \<Rightarrow> ((error + string) \<times> state) option" where
  "tryBlock recur e resourcePath m st =
     (case getInjectorFunc (func m) of
        Inl err \<Rightarrow> Some (Inl err, st)
      | Inr f \<Rightarrow>
          (case f e (src m) resourcePath st of
             (Inl err, st1) \<Rightarrow> Some (Inl err, st1)
           | (Inr replacement, st1) \<Rightarrow> recur replacement (src m) st1))"

text \<open>\<^verbatim>\<open>if (whitespace) replacement = replacement.replace(/^/gm, whitespace)\<close>\<close>

definition indentReplacement :: "string \<Rightarrow> string \<Rightarrow> string" where
  "indentReplacement ws replacement =
     (if ws \<noteq> [] then indentLines ws replacement else replacement)"

text \<open>
  The replacement of one tag: the \<^verbatim>\<open>try\<close> block, the \<^verbatim>\<open>catch\<close> block (the error
  is written to the console and the tag is wrapped in a comment; an error thrown by
  the wrapping is not caught here) and the indentation.
\<close>

definition tagReplacement ::
  "(string \<Rightarrow> string \<Rightarrow> state \<Rightarrow> ((error + string) \<times> state) option) \<Rightarrow>
   env \<Rightarrow> string \<Rightarrow> tag_match \<Rightarrow> state \<Rightarrow> ((error + string) \<times> state) option" where
  "tagReplacement recur e resourcePath m st =
     (case tryBlock recur e resourcePath m st of
        None \<Rightarrow> None
      | Some (Inr replacement, st1) \<Rightarrow>
          Some (Inr (indentReplacement (whitespace m) replacement), st1)
      | Some (Inl err, st1) \<Rightarrow>
          (let st2 = console_write (TagFailed (func m) resourcePath (index m) err) st1 in
           case wrapInCommentSyntax (wholeTag m) resourcePath of
             Inl err' \<Rightarrow> Some (Inl err', st2)
           | Inr replacement \<Rightarrow>
               Some (Inr (indentReplacement (whitespace m) replacement), st2)))"

text \<open>
  \<^verbatim>\<open>const start = contents.indexOf(wholeTag);\<close>
  \<^verbatim>\<open>contents = contents.slice(0, start) + replacement + contents.slice(start + wholeTag.length);\<close>
\<close>

definition spliceTag :: "string \<Rightarrow> string \<Rightarrow> string \<Rightarrow> string" where
  "spliceTag contents tag replacement =
     (let start = indexOf contents tag in
      slice contents 0 start @ replacement @ sliceFrom contents (start + int (length tag)))"

text \<open>The loop over the matches collected up front.\<close>

fun forMatches ::
  "(string \<Rightarrow> string \<Rightarrow> state \<Rightarrow> ((error + string) \<times> state) option) \<Rightarrow>
   env \<Rightarrow> string \<Rightarrow> tag_match list \<Rightarrow> string \<Rightarrow> state \<Rightarrow>
   ((error + string) \<times> state) option" where
  "forMatches recur e resourcePath [] contents st = Some (Inr contents, st)"
| "forMatches recur e resourcePath (m # ms) contents st =
     (case tagReplacement recur e resourcePath m st of
        None \<Rightarrow> None
      | Some (Inl err, st1) \<Rightarrow> Some (Inl err, st1)
      | Some (Inr replacement, st1) \<Rightarrow>
          forMatches recur e resourcePath ms (spliceTag contents (wholeTag m) replacement) st1)"

text \<open>
  \<^verbatim>\<open>parseAndReplace\<close>. Nothing in the code bounds the depth of the recursion (a
  file may inject itself); what ends it is the call stack. The first argument is the
  number of nested calls the stack has room for: a call beyond it throws the
  \<^verbatim>\<open>RangeError\<close> of a stack overflow. As the recursive call is inside the \<^verbatim>\<open>try\<close>
  block, this error is caught like any other, by the tag whose replacement was being
  searched.
\<close>

primrec parseAndReplace ::
  "nat \<Rightarrow> env \<Rightarrow> string \<Rightarrow> string \<Rightarrow> state \<Rightarrow> ((error + string) \<times> state) option" where
  "parseAndReplace 0 e contents resourcePath st = Some (Inl RangeError, st)"
| "parseAndReplace (Suc n) e contents resourcePath st =
     forMatches (parseAndReplace n e) e resourcePath (matchAll contents) contents st"

text \<open>The loader: one pass over the source of the resource, from no effects.\<close>

definition HtmlInjectorLoader ::
  "nat \<Rightarrow> env \<Rightarrow> string \<Rightarrow> string \<Rightarrow> ((error + string) \<times> state) option" where
  "HtmlInjectorLoader n e source resourcePath =
     parseAndReplace n e source resourcePath \<lparr>deps = [], console = []\<rparr>"

section \<open>Node's \<^verbatim>\<open>path\<close> module (POSIX)\<close>

text \<open>
  The three functions of Node's \<^verbatim>\<open>path\<close> that the loader calls, after Node's
  documentation, for concrete runs of the loader. They are not code of the loader.

  \<^verbatim>\<open>path.extname\<close>: the last portion of the path (trailing slashes dropped) from
  its last dot on; empty when that portion has no dot, when its only dot is its
  first character, or when it is \<^verbatim>\<open>..\<close>.
\<close>

definition lastPortion :: "string \<Rightarrow> string" where
  "lastPortion p =
     rev (takeWhile (\<lambda>c. c \<noteq> CHR ''/'') (dropWhile (\<lambda>c. c = CHR ''/'') (rev p)))"

definition posix_extname :: "string \<Rightarrow> string" where
  "posix_extname p =
     (let b = lastPortion p;
          ext = rev (takeWhile (\<lambda>c. c \<noteq> CHR ''.'') (rev b))
      in if CHR ''.'' \<notin> set b \<or> b = ''..'' \<or> length ext + 1 = length b then []
         else CHR ''.'' # ext)"

text \<open>
  \<^verbatim>\<open>path.dirname\<close>: the path up to the last slash that is followed by a portion
  (trailing slashes dropped), the slash at index 0 apart.
\<close>

primrec dirname_loop :: "string \<Rightarrow> nat \<Rightarrow> bool \<Rightarrow> nat option" where
  "dirname_loop p 0 matchedSlash = None"
| "dirname_loop p (Suc i) matchedSlash =
     (if p ! Suc i = CHR ''/''
      then (if \<not> matchedSlash then Some (Suc i) else dirname_loop p i matchedSlash)
      else dirname_loop p i False)"

definition posix_dirname :: "string \<Rightarrow> string" where
  "posix_dirname p =
     (if p = [] then ''.''
      else (let hasRoot = (hd p = CHR ''/'') in
            case dirname_loop p (length p - 1) True of
              None \<Rightarrow> if hasRoot then ''/'' else ''.''
            | Some end \<Rightarrow> if hasRoot \<and> end = 1 then ''//'' else take end p))"

text \<open>
  \<^verbatim>\<open>path.resolve(a, b)\<close> in the working directory \<open>cwd\<close>: the arguments are taken
  from the right until one is absolute, joined with slashes, and normalised
  (empty and \<^verbatim>\<open>.\<close> portions dropped, \<^verbatim>\<open>..\<close> dropping the portion before it).
\<close>

fun resolve_loop :: "string list \<Rightarrow> string \<Rightarrow> string \<times> bool" where
  "resolve_loop [] resolvedPath = (resolvedPath, False)"
| "resolve_loop (p # ps) resolvedPath =
     (if p = [] then resolve_loop ps resolvedPath
      else if hd p = CHR ''/'' then (p @ ''/'' @ resolvedPath, True)
      else resolve_loop ps (p @ ''/'' @ resolvedPath))"

fun normalizePortions :: "bool \<Rightarrow> string list \<Rightarrow> string list \<Rightarrow> string list" where
  "normalizePortions allowAboveRoot res [] = res"
| "normalizePortions allowAboveRoot res (x # xs) =
     (if x = [] \<or> x = ''.'' then normalizePortions allowAboveRoot res xs
      else if x = ''..'' then
        (if res \<noteq> [] \<and> last res \<noteq> ''..''
         then normalizePortions allowAboveRoot (butlast res) xs
         else if allowAboveRoot then normalizePortions allowAboveRoot (res @ [''..'']) xs
         else normalizePortions allowAboveRoot res xs)
      else normalizePortions allowAboveRoot (res @ [x]) xs)"

definition normalizeString :: "string \<Rightarrow> bool \<Rightarrow> string" where
  "normalizeString p allowAboveRoot =
     join ''/'' (normalizePortions allowAboveRoot [] (split_on CHR ''/'' p))"

definition posix_resolve :: "string \<Rightarrow> string \<Rightarrow> string \<Rightarrow> string" where
  "posix_resolve cwd a b =
     (case resolve_loop [b, a, cwd] [] of
        (resolvedPath, resolvedAbsolute) \<Rightarrow>
          (let n = normalizeString resolvedPath (\<not> resolvedAbsolute) in
           if resolvedAbsolute then ''/'' @ n
           else if n \<noteq> [] then n else ''.''))"

text \<open>
  A concrete environment: the files are an association list from absolute paths to
  contents, \<open>found\<close> answers the \<^verbatim>\<open>find\<close> call, and the working directory is
  \<open>cwd\<close>.
\<close>

definition node_env ::
  "(string \<times> string) list \<Rightarrow> (string \<Rightarrow> string \<Rightarrow> string option) \<Rightarrow> string \<Rightarrow> env" where
  "node_env files found cwd =
     \<lparr> readFileSync = map_of files,
       execFind = found,
       path_resolve = posix_resolve cwd,
       path_dirname = posix_dirname,
       path_extname = posix_extname \<rparr>"

text \<open>
  Whether a path is absolute, and whether a command-line argument begins with a dash.
\<close>

definition isAbsolute :: "string \<Rightarrow> bool" where
  "isAbsolute p = (case p of [] \<Rightarrow> False | c # _ \<Rightarrow> c = CHR ''/'')"

definition beginsWithDash :: "string \<Rightarrow> bool" where
  "beginsWithDash a = (case a of [] \<Rightarrow> False | c # _ \<Rightarrow> c = CHR ''-'')"

text \<open>
  The \<^verbatim>\<open>find\<close> process. \<^verbatim>\<open>findMatchingFiles\<close> runs it with the arguments
  \<^verbatim>\<open>[relativeTo, '-type', '-f', '-name', pattern]\<close> (line 120). \<^verbatim>\<open>find\<close> reads its
  command line as starting points followed by an expression, and the expression starts
  at the first argument that begins with a dash; the argument of the test \<^verbatim>\<open>-type\<close>
  is a file-type letter (\<^verbatim>\<open>f\<close> for a regular file). With a first argument that
  does not begin with a dash the expression is \<^verbatim>\<open>-type -f -name pattern\<close>, and
  \<^verbatim>\<open>-f\<close> is not a file type: \<^verbatim>\<open>find\<close> reports the error and exits with status 1
  without searching, which makes \<^verbatim>\<open>execFileSync\<close> throw. This is the one thing
  modelled of the process; on every other command line its answer is the parameter
  \<open>run\<close>, which stands for the file system searched (\<open>None\<close> for a non-zero exit
  status).
\<close>

definition find_argv :: "string \<Rightarrow> string \<Rightarrow> string list" where
  "find_argv relativeTo pattern = [relativeTo, ''-type'', ''-f'', ''-name'', pattern]"

definition find_process :: "(string list \<Rightarrow> string option) \<Rightarrow> string list \<Rightarrow> string option" where
  "find_process run argv =
     (case argv of
        start # t # c # rest \<Rightarrow>
          if \<not> beginsWithDash start \<and> t = ''-type'' \<and> beginsWithDash c then None
          else run argv
      | _ \<Rightarrow> run argv)"

definition real_find :: "(string list \<Rightarrow> string option) \<Rightarrow> string \<Rightarrow> string \<Rightarrow> string option" where
  "real_find run relativeTo pattern = find_process run (find_argv relativeTo pattern)"

section \<open>Lines, and the inputs of the concrete runs\<close>

text \<open>
  The lines of a string in the sense of the \<^verbatim>\<open>m\<close> flag: the pieces between its
  line terminators. It is used to state what the indentation does.
\<close>

fun linesOf :: "string \<Rightarrow> string list" where
  "linesOf [] = [[]]"
| "linesOf (c # cs) =
     (if isLineTerminator c then [] # linesOf cs
      else (case linesOf cs of
              [] \<Rightarrow> [[c]]
            | w # ws \<Rightarrow> (c # w) # ws))"

definition no_effects :: state where
  "no_effects = \<lparr>deps = [], console = []\<rparr>"

text \<open>A resource that injects a two-line file into an indented place.\<close>

definition nav_env :: env where
  "nav_env = node_env [(''/nav.html'', ''<li>a</li>\<newline><li>b</li>\<newline>'')] (\<lambda>_ _. None) ''/''"

definition list_doc :: string where
  "list_doc = ''<ul>\<newline>  <webpack-inject src=\"/nav.html\">\<newline></ul>''"

definition list_tag :: tag_match where
  "list_tag = \<lparr> index = 5, wholeTag = ''  <webpack-inject src=\"/nav.html\">'',
                 whitespace = ''  '', func = ''inject'', src = ''/nav.html'' \<rparr>"

definition list_replacement :: string where
  "list_replacement = ''  <li>a</li>\<newline>  <li>b</li>''"

definition nav_effects :: state where
  "nav_effects = \<lparr>deps = [''/nav.html''], console = [Inserting ''/nav.html'' ''/r/index.html'']\<rparr>"




text \<open>An environment in which the \<^verbatim>\<open>find\<close> call returns the empty string.\<close>

definition no_files_env :: env where
  "no_files_env = node_env [] (\<lambda>_ _. Some []) ''/''"

text \<open>Documents with an unknown verb.\<close>

definition two_doc :: string where
  "two_doc = ''<webpack-inject src=\"/nav.html\"><webpack-bar src='b'>''"

definition inject_tag0 :: tag_match where
  "inject_tag0 = \<lparr> index = 0, wholeTag = ''<webpack-inject src=\"/nav.html\">'',
                  whitespace = [], func = ''inject'', src = ''/nav.html'' \<rparr>"

definition bar_tag :: tag_match where
  "bar_tag = \<lparr> index = 32, wholeTag = ''<webpack-bar src='b'>'',
                whitespace = [], func = ''bar'', src = ''b'' \<rparr>"

definition foo_doc :: string where
  "foo_doc = ''<webpack-foo src=\"a\">''"


definition comments_doc :: string where
  "comments_doc = ''<webpack-foo src=\"a\"><webpack-bar src='b'>''"

definition comments_step :: string where
  "comments_step = ''<!-- <webpack-foo src=\"a\"> --><webpack-bar src='b'>''"

definition foo_failed :: state where
  "foo_failed = \<lparr>deps = [],
      console = [TagFailed ''foo'' ''/r/index.html'' 0 (NoSuchInjectFunction ''foo'')]\<rparr>"

text \<open>The example of the README: \<^verbatim>\<open>src/index.html\<close>, \<^verbatim>\<open>src/nav.html\<close>, \<^verbatim>\<open>src/main.html\<close>.\<close>

definition readme_env :: env where
  "readme_env = node_env
     [(''/src/nav.html'', ''<div id='navbar'>\<newline>  <div>Home</div>\<newline></div>\<newline>''),
      (''/src/main.html'', ''<h1>Welcome</h1>\<newline><p>Let's build a great website</p>\<newline>'')]
     (\<lambda>_ _. None) ''/''"

definition readme_body :: string where
  "readme_body = ''<body>\<newline>  <webpack-inject src='./nav.html' />\<newline>  <webpack-inject src='./main.html' />\<newline></body>''"










text \<open>
  Directories \<^verbatim>\<open>/r\<close> that hold one file matching the pattern, \<^verbatim>\<open>/r/a.less\<close> and
  \<^verbatim>\<open>/r/a.js\<close>: the search for regular files of that name in \<^verbatim>\<open>/r\<close> prints its
  path.
\<close>

definition less_found_env :: env where
  "less_found_env = node_env []
     (real_find (\<lambda>argv. if argv = [''/r'', ''-type'', ''f'', ''-name'', ''*.less'']
                        then Some ''/r/a.less\<newline>'' else None)) ''/''"

definition js_found_env :: env where
  "js_found_env = node_env []
     (real_find (\<lambda>argv. if argv = [''/r'', ''-type'', ''f'', ''-name'', ''*.js'']
                        then Some ''/r/a.js\<newline>'' else None)) ''/''"





definition self_env :: env where
  "self_env = node_env [(''/s.html'', ''<webpack-inject src=\"/s.html\">'')] (\<lambda>_ _. None) ''/''"

section \<open>Facts about the string primitives\<close>

lemma split_on_not_Nil: "split_on d s \<noteq> []"
  by (induction s) (auto split: list.splits)

lemma length_split_on: "length (split_on d s) = Suc (count_list s d)"
proof (induction s)
  case Nil
  show ?case by simp
next
  case (Cons c cs)
  obtain w ws where "split_on d cs = w # ws"
    using split_on_not_Nil [of d cs] by (cases "split_on d cs") auto
  with Cons show ?case by auto
qed

lemma split_on_snoc_separator: "split_on d (s @ [d]) = split_on d s @ [[]]"
proof (induction s)
  case Nil
  show ?case by simp
next
  case (Cons c cs)
  obtain w ws where "split_on d cs = w # ws"
    using split_on_not_Nil [of d cs] by (cases "split_on d cs") auto
  with Cons show ?case by auto
qed

lemma take_then_rest: "xs = take n xs @ drop (length (take n xs)) xs"
  by (cases "n \<le> length xs") (simp_all add: min_def)

lemma suffix_drop_more: "suffix (drop p s) c \<Longrightarrow> suffix (drop (p + k) s) c"
proof -
  assume "suffix (drop p s) c"
  moreover have "suffix (drop (p + k) s) (drop p s)"
    by (metis add.commute drop_drop suffix_drop)
  ultimately show ?thesis by (metis suffix_order.trans)
qed

lemma map_append_Nil: "map ((@) []) xs = xs"
  by (induction xs) simp_all

subsection \<open>\<^verbatim>\<open>indexOf\<close> and the splice\<close>

lemma indexOf_first:
  "indexOf c t = int j \<Longrightarrow>
   prefix t (drop j c) \<and> j + length t \<le> length c \<and> (\<forall>i<j. \<not> prefix t (drop i c))"
proof (induction c arbitrary: j)
  case Nil
  then show ?case by (auto split: if_splits)
next
  case (Cons a c)
  show ?case
  proof (cases "prefix t (a # c)")
    case True
    with Cons.prems show ?thesis
      by (auto dest: prefix_length_le)
  next
    case False
    with Cons.prems obtain j' where j': "indexOf c t = int j'" "j = Suc j'"
      by (cases "indexOf c t < 0") (auto simp: Let_def intro: that [of "nat (indexOf c t)"])
    from Cons.IH [OF j'(1)] False j'(2) show ?thesis
      by (auto simp: less_Suc_eq_0_disj)
  qed
qed

lemma indexOf_found:
  "prefix t (drop k c) \<Longrightarrow> \<exists>j\<le>k. indexOf c t = int j"
proof (induction c arbitrary: k)
  case Nil
  then show ?case by simp
next
  case (Cons a c)
  show ?case
  proof (cases "prefix t (a # c)")
    case True
    then show ?thesis by simp
  next
    case False
    with Cons.prems obtain k' where k': "k = Suc k'"
      by (cases k) auto
    with Cons.prems have "prefix t (drop k' c)" by simp
    from Cons.IH [OF this] obtain j where "j \<le> k'" "indexOf c t = int j" by blast
    with False k' show ?thesis
      by (intro exI [of _ "Suc j"]) (simp add: Let_def)
  qed
qed

lemma spliceTag_found:
  assumes "indexOf c t = int j"
  shows "spliceTag c t r = take j c @ r @ drop (j + length t) c"
proof -
  from indexOf_first [OF assms] have "j + length t \<le> length c" by blast
  then show ?thesis
    using assms
    by (simp add: spliceTag_def slice_def sliceFrom_def sliceIndex_def Let_def nat_add_distrib)
qed

lemma spliceTag_keeps_rest:
  assumes "suffix (t @ rest) c"
  shows "suffix rest (spliceTag c t r)"
proof -
  from assms obtain pre where c: "c = pre @ t @ rest"
    by (auto simp: suffix_def)
  then have "prefix t (drop (length pre) c)" by simp
  from indexOf_found [OF this] obtain j where j: "j \<le> length pre" "indexOf c t = int j"
    by blast
  have "drop (j + length t) c = drop (j + length t) (pre @ t) @ rest"
    using j(1) c by simp
  then show ?thesis
    using spliceTag_found [OF j(2), of r] by (simp add: suffix_def)
qed

subsection \<open>Indentation line by line\<close>

lemma linesOf_not_Nil: "linesOf s \<noteq> []"
  by (induction s) (auto split: list.splits)

lemma linesOf_prepend:
  "\<forall>c \<in> set ws. \<not> isLineTerminator c \<Longrightarrow>
   linesOf (ws @ x) = (ws @ hd (linesOf x)) # tl (linesOf x)"
proof (induction ws)
  case Nil
  then show ?case using linesOf_not_Nil [of x] by simp
next
  case (Cons c cs)
  then show ?case by simp
qed

lemma linesOf_indentAfter:
  "\<forall>c \<in> set ws. \<not> isLineTerminator c \<Longrightarrow>
   linesOf (indentAfter ws r) = hd (linesOf r) # map ((@) ws) (tl (linesOf r))"
proof (induction r)
  case Nil
  then show ?case by simp
next
  case (Cons c cs)
  obtain w rest where "linesOf cs = w # rest"
    using linesOf_not_Nil [of cs] by (cases "linesOf cs") auto
  with Cons show ?case
    by (simp add: linesOf_prepend)
qed

lemma linesOf_indentLines:
  "\<forall>c \<in> set ws. \<not> isLineTerminator c \<Longrightarrow>
   linesOf (indentLines ws r) = map ((@) ws) (linesOf r)"
  using linesOf_not_Nil [of r]
  by (cases "linesOf r") (simp_all add: indentLines_def linesOf_prepend linesOf_indentAfter)

lemma tabOrSpace_not_terminator: "isTabOrSpace c \<Longrightarrow> \<not> isLineTerminator c"
  by (auto simp: isTabOrSpace_def isLineTerminator_def)

subsection \<open>The extension of the resource path\<close>



lemma posix_extname_not_script:
  "posix_extname p \<notin> set [''js'', ''ts'', ''tsx'', ''jsx'']"
  by (simp add: posix_extname_def Let_def)

section \<open>Facts about the tag pattern\<close>

lemma strip_prefix_Some: "strip_prefix p t = Some r \<Longrightarrow> t = p @ r"
  by (induction p t rule: strip_prefix.induct) (auto split: if_splits)


lemma matchTail_Some:
  assumes "matchTail y = Some n"
  shows "n \<le> length y \<and> matchTail (take n y @ z) = Some n"
proof -
  define w where "w = takeWhile isWhiteSpace y"
  define r where "r = dropWhile isWhiteSpace y"
  have y: "y = w @ r" and w: "\<forall>c \<in> set w. isWhiteSpace c"
    unfolding w_def r_def by (auto dest: set_takeWhileD)
  have gt: "\<not> isWhiteSpace CHR ''>''" and sl: "\<not> isWhiteSpace CHR ''/''"
    by (simp_all add: isWhiteSpace_def)
  from assms consider
      (close) r' where "r = CHR ''>'' # r'" "n = length w + 1"
    | (self) r' where "r = CHR ''/'' # CHR ''>'' # r'" "n = length w + 2"
    unfolding matchTail_def Let_def w_def [symmetric] r_def [symmetric]
    by (auto split: list.splits if_splits)
  then show ?thesis
  proof cases
    case close
    then have t: "take n y = w @ ''>''" and le: "n \<le> length y"
      using y by simp_all
    have "takeWhile isWhiteSpace ((w @ ''>'') @ z) = w"
      and "dropWhile isWhiteSpace ((w @ ''>'') @ z) = CHR ''>'' # z"
      using w gt by simp_all
    then show ?thesis
      using le close(2) unfolding t matchTail_def Let_def by simp
  next
    case self
    then have t: "take n y = w @ ''/>''" and le: "n \<le> length y"
      using y by simp_all
    have "takeWhile isWhiteSpace ((w @ ''/>'') @ z) = w"
      and "dropWhile isWhiteSpace ((w @ ''/>'') @ z) = CHR ''/'' # CHR ''>'' # z"
      using w sl by simp_all
    then show ?thesis
      using le self(2) unfolding t matchTail_def Let_def by simp
  qed
qed

lemma matchSrc_Some:
  "matchSrc q t = Some (u, n) \<Longrightarrow>
   \<exists>y. t = u @ q # y \<and> matchTail y = Some n \<and> u \<noteq> [] \<and> list_all isNotOctal3 u"
proof (induction t arbitrary: u n)
  case Nil
  then show ?case by simp
next
  case (Cons c t)
  from Cons.prems have c: "isNotOctal3 c"
    by (simp split: if_splits)
  show ?case
  proof (cases "matchSrc q t")
    case None
    with Cons.prems c have
      "(case t of [] \<Rightarrow> None
        | d # t' \<Rightarrow> if d = q then (case matchTail t' of None \<Rightarrow> None | Some n \<Rightarrow> Some ([c], n))
                    else None) = Some (u, n)"
      by simp
    then obtain t' where "t = q # t'" "matchTail t' = Some n" "u = [c]"
      by (cases t) (auto split: if_splits option.splits)
    with c show ?thesis by simp
  next
    case (Some a)
    obtain u' n' where a: "a = (u', n')" by (cases a)
    with Some Cons.prems c have "u = c # u'" "n = n'" by simp_all
    with Cons.IH [OF Some [unfolded a]] c show ?thesis by auto
  qed
qed

lemma matchSrc_complete:
  "u \<noteq> [] \<Longrightarrow> list_all isNotOctal3 u \<Longrightarrow> matchTail y = Some n \<Longrightarrow>
   matchSrc q (u @ q # y) \<noteq> None"
proof (induction u)
  case Nil
  then show ?case by simp
next
  case (Cons c u)
  show ?case
  proof (cases "u = []")
    case True
    with Cons.prems show ?thesis
      by (simp del: matchSrc.simps add: matchSrc.simps(2) [of q c "q # y"] split: option.splits)
  next
    case False
    with Cons.IH Cons.prems obtain a where "matchSrc q (u @ q # y) = Some a"
      by auto
    with Cons.prems show ?thesis
      by (cases a) simp
  qed
qed

text \<open>Group 4 is greedy: no longer run is followed by the quote and a tag end.\<close>

lemma matchSrc_longest:
  "matchSrc q t = Some (u, n) \<Longrightarrow> t = u' @ q # y' \<Longrightarrow> u' \<noteq> [] \<Longrightarrow>
   list_all isNotOctal3 u' \<Longrightarrow> matchTail y' = Some n' \<Longrightarrow> length u' \<le> length u"
proof (induction t arbitrary: u n u')
  case Nil
  then show ?case by simp
next
  case (Cons c t)
  from Cons.prems(2,3) obtain u'' where u': "u' = c # u''" and t: "t = u'' @ q # y'"
    by (cases u') auto
  from Cons.prems(1) have c: "isNotOctal3 c"
    by (simp split: if_splits)
  show ?case
  proof (cases "matchSrc q t")
    case None
    have "u'' = []"
    proof (rule ccontr)
      assume "u'' \<noteq> []"
      moreover from Cons.prems(4) u' have "list_all isNotOctal3 u''" by simp
      ultimately have "matchSrc q (u'' @ q # y') \<noteq> None"
        using Cons.prems(5) by (rule matchSrc_complete)
      with None t show False by simp
    qed
    moreover from matchSrc_Some [OF Cons.prems(1)] have "u \<noteq> []" by blast
    ultimately show ?thesis
      unfolding u' by (cases u) simp_all
  next
    case (Some a)
    obtain u1 n1 where a: "a = (u1, n1)" by (cases a)
    with Some Cons.prems(1) c have u: "u = c # u1" by simp
    show ?thesis
    proof (cases "u'' = []")
      case True
      then show ?thesis unfolding u' u by simp
    next
      case False
      from Cons.prems(4) u' have "list_all isNotOctal3 u''" by simp
      from Cons.IH [OF Some [unfolded a] t False this Cons.prems(5)]
      show ?thesis unfolding u' u by simp
    qed
  qed
qed

lemma execAt_fields:
  "execAt s p = Some m \<Longrightarrow>
   index m = p
   \<and> whitespace m = (if atLineStart s p then takeWhile isTabOrSpace (drop p s) else [])
   \<and> (\<exists>n. wholeTag m = take n (drop p s))"
  by (auto simp: execAt_def Let_def split: option.splits if_splits list.splits)

lemma execAt_SomeD:
  assumes "execAt s p = Some m"
  defines "t \<equiv> drop p s"
  defines "ws \<equiv> (if atLineStart s p then takeWhile isTabOrSpace (drop p s) else [])"
  shows "\<exists>t2 t4 q t5 u n.
     strip_prefix ''<webpack-'' (drop (length ws) t) = Some t2
     \<and> takeWhile isLowerAZ t2 \<noteq> []
     \<and> strip_prefix '' src='' (dropWhile isLowerAZ t2) = Some t4
     \<and> t4 = q # t5 \<and> (q = CHR 0x22 \<or> q = CHR 0x27)
     \<and> matchSrc q t5 = Some (u, n)
     \<and> m = \<lparr> index = p,
              wholeTag = take (length ws + 9 + length (takeWhile isLowerAZ t2) + 5 + 1
                               + length u + 1 + n) t,
              whitespace = ws, func = takeWhile isLowerAZ t2, src = u \<rparr>"
  using assms(1) unfolding execAt_def Let_def t_def ws_def
  by (simp del: matchSrc.simps strip_prefix.simps
      split: option.splits if_splits list.splits prod.splits)

text \<open>What a match at index \<open>p\<close> says about the text there.\<close>

lemma execAt_shape:
  assumes "execAt s p = Some m"
  shows "\<exists>q y n.
     drop p s = whitespace m @ ''<webpack-'' @ func m @ '' src='' @ q # src m @ q # y
     \<and> wholeTag m = whitespace m @ ''<webpack-'' @ func m @ '' src='' @ q # src m @ q # take n y
     \<and> (q = CHR 0x22 \<or> q = CHR 0x27) \<and> matchTail y = Some n
     \<and> func m \<noteq> [] \<and> list_all isLowerAZ (func m)
     \<and> src m \<noteq> [] \<and> list_all isNotOctal3 (src m)
     \<and> list_all isTabOrSpace (whitespace m)
     \<and> (whitespace m \<noteq> [] \<longrightarrow> atLineStart s p)"
proof -
  define t where "t = drop p s"
  define ws where "ws = (if atLineStart s p then takeWhile isTabOrSpace (drop p s) else [])"
  from execAt_SomeD [OF assms, folded ws_def t_def]
  obtain t2 t4 q t5 u n where
    t2: "strip_prefix ''<webpack-'' (drop (length ws) t) = Some t2"
    and f: "takeWhile isLowerAZ t2 \<noteq> []"
    and t4: "strip_prefix '' src='' (dropWhile isLowerAZ t2) = Some t4"
    and q: "t4 = q # t5" "q = CHR 0x22 \<or> q = CHR 0x27"
    and u: "matchSrc q t5 = Some (u, n)"
    and m: "m = \<lparr> index = p,
              wholeTag = take (length ws + 9 + length (takeWhile isLowerAZ t2) + 5 + 1
                               + length u + 1 + n) t,
              whitespace = ws, func = takeWhile isLowerAZ t2, src = u \<rparr>"
    by blast
  define f where "f = takeWhile isLowerAZ t2"
  from matchSrc_Some [OF u] obtain y where y: "t5 = u @ q # y" "matchTail y = Some n"
    "u \<noteq> []" "list_all isNotOctal3 u" by blast
  have wsp: "prefix ws t" "list_all isTabOrSpace ws"
    unfolding ws_def t_def by (auto simp: takeWhile_is_prefix list_all_iff dest: set_takeWhileD)
  then have "t = ws @ drop (length ws) t"
    by (metis append_eq_conv_conj prefixE)
  also have "drop (length ws) t = ''<webpack-'' @ t2"
    using strip_prefix_Some [OF t2] .
  also have "t2 = f @ dropWhile isLowerAZ t2"
    unfolding f_def by simp
  also have "dropWhile isLowerAZ t2 = '' src='' @ t4"
    using strip_prefix_Some [OF t4] .
  finally have shape: "t = ws @ ''<webpack-'' @ f @ '' src='' @ q # u @ q # y"
    using q(1) y(1) by simp
  from matchTail_Some [OF y(2)] have n: "n \<le> length y" by blast
  have len: "length ws + 9 + length f + 5 + 1 + length u + 1 + n
             = length (ws @ ''<webpack-'' @ f @ '' src='' @ q # u @ [q]) + n"
    by simp
  have "take (length ws + 9 + length f + 5 + 1 + length u + 1 + n) t
        = (ws @ ''<webpack-'' @ f @ '' src='' @ q # u @ [q]) @ take n y"
    unfolding len by (subst shape) (simp only: take_append append_assoc, simp)
  then have whole: "wholeTag m = ws @ ''<webpack-'' @ f @ '' src='' @ q # u @ q # take n y"
    unfolding m f_def by simp
  have fl: "list_all isLowerAZ f"
    unfolding f_def by (auto simp: list_all_iff dest: set_takeWhileD)
  have ls: "ws \<noteq> [] \<longrightarrow> atLineStart s p"
    unfolding ws_def by simp
  have fields: "whitespace m = ws" "func m = f" "src m = u"
    unfolding m f_def by simp_all
  show ?thesis
    unfolding fields
    using shape [unfolded t_def] whole q(2) y(2,3,4) f [folded f_def] fl wsp(2) ls
    by blast
qed


lemma matchAllFrom_execAt:
  "m \<in> set (matchAllFrom s p) \<Longrightarrow> execAt s (index m) = Some m"
proof (induction s p rule: matchAllFrom.induct)
  case (1 s p)
  show ?case
  proof (cases "execAt s p")
    case None
    with "1.prems" "1.IH"(1) show ?thesis
      by (subst (asm) matchAllFrom.simps) (auto split: if_splits)
  next
    case (Some m')
    with "1.prems" "1.IH"(2) [OF _ Some] execAt_fields [OF Some] show ?thesis
      by (subst (asm) matchAllFrom.simps) (auto split: if_splits)
  qed
qed


lemma whitespace_no_terminator:
  assumes "m \<in> set (matchAll contents)"
  shows "\<forall>c \<in> set (whitespace m). \<not> isLineTerminator c"
proof -
  from assms have "execAt contents (index m) = Some m"
    unfolding matchAll_def by (rule matchAllFrom_execAt)
  from execAt_shape [OF this] have "list_all isTabOrSpace (whitespace m)"
    by blast
  then have "\<forall>c \<in> set (whitespace m). isTabOrSpace c"
    by (simp add: list_all_iff)
  then show ?thesis
    using tabOrSpace_not_terminator by blast
qed



section \<open>Facts about the loop\<close>

lemma forMatches_append:
  "forMatches recur e rp (ms1 @ ms2) c st =
     (case forMatches recur e rp ms1 c st of
        None \<Rightarrow> None
      | Some (Inl err, s1) \<Rightarrow> Some (Inl err, s1)
      | Some (Inr c1, s1) \<Rightarrow> forMatches recur e rp ms2 c1 s1)"
  by (induction ms1 arbitrary: c st) (auto split: option.splits sum.splits prod.splits)

lemma forMatches_snoc:
  assumes "forMatches recur e rp ms doc st = Some (Inr c, st')"
    and "forMatches recur e rp (ms @ [m]) doc st = Some (Inr c2, st2)"
  shows "\<exists>r. tagReplacement recur e rp m st' = Some (Inr r, st2)
             \<and> c2 = spliceTag c (wholeTag m) r"
proof (cases "tagReplacement recur e rp m st'")
  case None
  with assms show ?thesis
    by (simp add: forMatches_append)
next
  case (Some a)
  obtain res st1 where a: "a = (res, st1)" by (cases a)
  show ?thesis
  proof (cases res)
    case (Inl err)
    with assms Some a show ?thesis
      by (simp add: forMatches_append)
  next
    case (Inr r)
    with assms Some a have "spliceTag c (wholeTag m) r = c2" "st1 = st2"
      by (simp_all add: forMatches_append)
    with Some a Inr show ?thesis
      by (intro exI [of _ r]) simp
  qed
qed

text \<open>
  The loop keeps the part of the document behind the tags it has handled: when the
  search for matches stood at index \<open>p\<close>, the contents end with the document from
  \<open>p\<close> on.
\<close>

lemma forMatches_keeps_rest:
  "suffix (drop p s) c \<Longrightarrow> i < length (matchAllFrom s p) \<Longrightarrow>
   forMatches recur e rp (take i (matchAllFrom s p)) c st = Some (Inr c', st') \<Longrightarrow>
   suffix (drop (index (matchAllFrom s p ! i)) s) c'"
proof (induction s p arbitrary: c st i rule: matchAllFrom.induct)
  case (1 s p)
  from "1.prems"(2) have le: "\<not> length s < p"
    by (subst (asm) matchAllFrom.simps) (auto split: if_splits)
  show ?case
  proof (cases "execAt s p")
    case None
    then have eq: "matchAllFrom s p = matchAllFrom s (p + 1)"
      using le by (subst matchAllFrom.simps) simp
    from "1.prems"(1) have "suffix (drop (p + 1) s) c"
      by (rule suffix_drop_more)
    from "1.IH"(1) [OF le None this] "1.prems"(2,3) show ?thesis
      unfolding eq by blast
  next
    case (Some m)
    define p' where "p' = (if wholeTag m = [] then p + 1 else p + length (wholeTag m))"
    have eq: "matchAllFrom s p = m # matchAllFrom s p'"
      using le Some unfolding p'_def by (subst matchAllFrom.simps) simp
    from execAt_fields [OF Some] obtain n where m: "index m = p" "wholeTag m = take n (drop p s)"
      by blast
    show ?thesis
    proof (cases i)
      case 0
      with "1.prems" m(1) show ?thesis
        unfolding eq by simp
    next
      case (Suc k)
      with "1.prems"(3) obtain r st1 where
        r: "tagReplacement recur e rp m st = Some (Inr r, st1)"
        and run: "forMatches recur e rp (take k (matchAllFrom s p'))
                    (spliceTag c (wholeTag m) r) st1 = Some (Inr c', st')"
        unfolding eq by (auto split: option.splits sum.splits prod.splits)
      have "drop p s = wholeTag m @ drop (p + length (wholeTag m)) s"
        unfolding m(2) using take_then_rest [of "drop p s" n] by (simp add: add.commute)
      with "1.prems"(1) have "suffix (drop (p + length (wholeTag m)) s) (spliceTag c (wholeTag m) r)"
        by (intro spliceTag_keeps_rest) simp
      then have inv: "suffix (drop p' s) (spliceTag c (wholeTag m) r)"
        unfolding p'_def using suffix_drop_more [of "p + length (wholeTag m)" s _ 1] by auto
      from "1.prems"(2) Suc have k: "k < length (matchAllFrom s p')"
        unfolding eq by simp
      from "1.IH"(2) [OF le Some inv [unfolded p'_def] k [unfolded p'_def] run [unfolded p'_def]]
      show ?thesis
        unfolding eq Suc p'_def by simp
    qed
  qed
qed



lemma list_doc_matches: "matchAll list_doc = [list_tag]"
  by code_simp




section \<open>Facts about the environment and the recursion\<close>



lemma dirname_loop_pos: "dirname_loop p i ms = Some e \<Longrightarrow> 0 < e"
  by (induction i arbitrary: ms) (auto split: if_splits)

lemma posix_dirname_absolute:
  assumes "isAbsolute p"
  shows "\<not> beginsWithDash (posix_dirname p)"
proof -
  from assms obtain cs where p: "p = CHR ''/'' # cs"
    by (cases p) (auto simp: isAbsolute_def)
  show ?thesis
  proof (cases "dirname_loop p (length p - 1) True")
    case None
    with p show ?thesis
      by (simp add: posix_dirname_def beginsWithDash_def)
  next
    case (Some e)
    from dirname_loop_pos [OF Some] obtain e' where "e = Suc e'"
      by (cases e) auto
    with Some p show ?thesis
      by (simp add: posix_dirname_def beginsWithDash_def Let_def)
  qed
qed


text \<open>
  The pass always returns: with a document or with a thrown error, at every depth
  of the call stack.
\<close>

lemma forMatches_returns:
  assumes "\<And>c rp st. recur c rp st \<noteq> None"
  shows "forMatches recur e resourcePath ms contents st \<noteq> None"
proof (induction ms arbitrary: contents st)
  case Nil
  show ?case by simp
next
  case (Cons m ms)
  have t: "tryBlock recur e resourcePath m st \<noteq> None"
    using assms
    by (simp add: tryBlock_def split: sum.splits prod.splits)
  then have "tagReplacement recur e resourcePath m st \<noteq> None"
    by (auto simp: tagReplacement_def Let_def split: option.splits sum.splits prod.splits)
  with Cons.IH show ?case
    by (auto split: option.splits sum.splits prod.splits)
qed

lemma parseAndReplace_returns: "parseAndReplace n e contents resourcePath st \<noteq> None"
proof (induction n arbitrary: contents resourcePath st)
  case 0
  show ?case by simp
next
  case (Suc n)
  then show ?case
    by (simp add: forMatches_returns)
qed



lemma tryBlock_unknown_verb:
  "func m \<noteq> ''inject'' \<Longrightarrow> func m \<noteq> ''import'' \<Longrightarrow>
   tryBlock recur e resourcePath m st = Some (Inl (NoSuchInjectFunction (func m)), st)"
  by (simp add: tryBlock_def getInjectorFunc_def)

lemma tryBlock_nested_failure:
  "getInjectorFunc (func m) = Inr f \<Longrightarrow> f e (src m) resourcePath st = (Inr r, st1) \<Longrightarrow>
   recur r (src m) st1 = Some (Inl err, st2) \<Longrightarrow>
   tryBlock recur e resourcePath m st = Some (Inl err, st2)"
  by (simp add: tryBlock_def)


section \<open>The README's example\<close>

text \<open>
  On the README's \<^verbatim>\<open>index.html\<close> the pattern has one match, from the first tag to
  the end of the second (group 4 runs to the last quote that a tag end follows), and
  \<^verbatim>\<open>path.resolve\<close> appends the \<^verbatim>\<open>src\<close> to the path of \<^verbatim>\<open>index.html\<close> itself; no
  file is injected.
\<close>

lemma readme_example_run:
  "map (\<lambda>m. (index m, func m, src m)) (matchAll readme_body)
     = [(7, ''inject'', ''./nav.html' />\<newline>  <webpack-inject src='./main.html'')]
   \<and> path_resolve readme_env ''/src/index.html'' ''./nav.html'' = ''/src/index.html/nav.html''
   \<and> map_option fst (HtmlInjectorLoader 2 readme_env readme_body ''/src/index.html'')
     = Some (Inr ''<body>\<newline>  <!--   <webpack-inject src='./nav.html' />\<newline>    <webpack-inject src='./main.html' /> -->\<newline></body>'')"
  by code_simp

section \<open>The inject verb\<close>




section \<open>The comment fallback\<close>




text \<open>
  The pattern of the fallback asks for three or four letters, so that the extension
  of a script \<^verbatim>\<open>.js\<close> or \<^verbatim>\<open>.ts\<close>, which the import verb names among the
  resources it serves, is not found either.
\<close>

lemma script_resource_fallback_run:
  "extensionMatch ''/r/main.js'' = None
   \<and> map_option fst (HtmlInjectorLoader 1 nav_env foo_doc ''/r/main.js'')
       = Some (Inl (NotAValidFilePath ''/r/main.js''))"
  by code_simp

text \<open>
  C7. When a tag of the contents fails (its \<^verbatim>\<open>try\<close> block throws) after the tags
  before it were replaced, and the resource path has no extension of three or four
  lower-case letters, the pass over these contents ends with the error of the
  comment wrapping: the remaining tags are not handled and no document is returned.
\<close>

theorem fallback_error_aborts_pass:
  assumes "matchAll contents = ms1 @ m # ms2"
    and "forMatches (parseAndReplace n e) e resourcePath ms1 contents st = Some (Inr c1, st1)"
    and "tryBlock (parseAndReplace n e) e resourcePath m st1 = Some (Inl err, st2)"
    and "extensionMatch resourcePath = None"
  shows "parseAndReplace (Suc n) e contents resourcePath st
         = Some (Inl (NotAValidFilePath resourcePath),
                 console_write (TagFailed (func m) resourcePath (index m) err) st2)"
  using assms
  by (simp add: forMatches_append tagReplacement_def wrapInCommentSyntax_def)

theorem fallback_error_aborts_pass_witness:
  "matchAll two_doc = [inject_tag0] @ bar_tag # []
   \<and> forMatches (parseAndReplace 1 nav_env) nav_env ''/r/main.js'' [inject_tag0] two_doc no_effects
     = Some (Inr (''<li>a</li>\<newline><li>b</li><webpack-bar src='b'>''),
             \<lparr>deps = [''/nav.html''], console = [Inserting ''/nav.html'' ''/r/main.js'']\<rparr>)
   \<and> tryBlock (parseAndReplace 1 nav_env) nav_env ''/r/main.js'' bar_tag
        \<lparr>deps = [''/nav.html''], console = [Inserting ''/nav.html'' ''/r/main.js'']\<rparr>
     = Some (Inl (NoSuchInjectFunction ''bar''),
             \<lparr>deps = [''/nav.html''], console = [Inserting ''/nav.html'' ''/r/main.js'']\<rparr>)
   \<and> extensionMatch ''/r/main.js'' = None
   \<and> parseAndReplace (Suc 1) nav_env two_doc ''/r/main.js'' no_effects
     = Some (Inl (NotAValidFilePath ''/r/main.js''),
             \<lparr>deps = [''/nav.html''],
              console = [Inserting ''/nav.html'' ''/r/main.js'',
                         TagFailed ''bar'' ''/r/main.js'' 32 (NoSuchInjectFunction ''bar'')]\<rparr>)"
proof -
  have a: "matchAll two_doc = [inject_tag0] @ bar_tag # []"
    by code_simp
  have b: "forMatches (parseAndReplace 1 nav_env) nav_env ''/r/main.js'' [inject_tag0] two_doc no_effects
     = Some (Inr (''<li>a</li>\<newline><li>b</li><webpack-bar src='b'>''),
             \<lparr>deps = [''/nav.html''], console = [Inserting ''/nav.html'' ''/r/main.js'']\<rparr>)"
    by code_simp
  have c: "tryBlock (parseAndReplace 1 nav_env) nav_env ''/r/main.js'' bar_tag
        \<lparr>deps = [''/nav.html''], console = [Inserting ''/nav.html'' ''/r/main.js'']\<rparr>
     = Some (Inl (NoSuchInjectFunction ''bar''),
             \<lparr>deps = [''/nav.html''], console = [Inserting ''/nav.html'' ''/r/main.js'']\<rparr>)"
    by code_simp
  have d: "extensionMatch ''/r/main.js'' = None"
    by code_simp
  have e: "console_write (TagFailed (func bar_tag) ''/r/main.js'' (index bar_tag) (NoSuchInjectFunction ''bar''))
             \<lparr>deps = [''/nav.html''], console = [Inserting ''/nav.html'' ''/r/main.js'']\<rparr>
           = \<lparr>deps = [''/nav.html''],
              console = [Inserting ''/nav.html'' ''/r/main.js'',
                         TagFailed ''bar'' ''/r/main.js'' 32 (NoSuchInjectFunction ''bar'')]\<rparr>"
    by code_simp
  from fallback_error_aborts_pass [OF a b c d] a b c d show ?thesis
    unfolding e by blast
qed

section \<open>The import verb\<close>



text \<open>
  C4. With a file that matches the pattern in the directory of the resource, the
  loader emits no import line: in a style sheet the tag is left as a comment, and in
  a script the pass throws, as the fallback does not find the extension
  \<^verbatim>\<open>.js\<close>. Behind the failing search, the keyword chosen for the lines is
  \<^verbatim>\<open>@import\<close> for every resource path: \<^verbatim>\<open>path.extname\<close> returns the extension
  with its dot, which is none of \<^verbatim>\<open>js\<close>, \<^verbatim>\<open>ts\<close>, \<^verbatim>\<open>tsx\<close>, \<^verbatim>\<open>jsx\<close>.
\<close>

theorem import_lines_run:
  "map_option fst (HtmlInjectorLoader 2 less_found_env ''<webpack-import src=\"*.less\">'' ''/r/main.less'')
     = Some (Inr ''/* <webpack-import src=\"*.less\"> */'')
   \<and> map_option fst (HtmlInjectorLoader 2 js_found_env ''<webpack-import src=\"*.js\">'' ''/r/main.js'')
     = Some (Inl (NotAValidFilePath ''/r/main.js''))
   \<and> importKeyword (node_env files found cwd) resourcePath = ''@import''"
proof (intro conjI)
  show "map_option fst (HtmlInjectorLoader 2 less_found_env ''<webpack-import src=\"*.less\">'' ''/r/main.less'')
     = Some (Inr ''/* <webpack-import src=\"*.less\"> */'')"
    by code_simp
  show "map_option fst (HtmlInjectorLoader 2 js_found_env ''<webpack-import src=\"*.js\">'' ''/r/main.js'')
     = Some (Inl (NotAValidFilePath ''/r/main.js''))"
    by code_simp
  show "importKeyword (node_env files found cwd) resourcePath = ''@import''"
    using posix_extname_not_script [of resourcePath]
    by (simp add: importKeyword_def node_env_def)
qed

text \<open>
  C10. Whatever string the \<^verbatim>\<open>find\<close> call returns, the import verb splits it at
  the newlines and emits one import statement per field, the empty fields
  included, one more than there are newlines. An empty output gives the single
  field that is the empty path, and an output that ends in a newline ends with that
  field; the error for zero files is never the result.
\<close>

theorem addImportStatements_per_field:
  "execFind e (path_dirname e resourcePath) pattern = Some out \<Longrightarrow>
   fst (addImportStatements e pattern resourcePath st)
     = Inr (concat (map (importLine (importKeyword e resourcePath)) (split_on CHR 0x0A out)))
   \<and> length (split_on CHR 0x0A out) = Suc (count_list out CHR 0x0A)
   \<and> split_on CHR 0x0A [] = [[]]
   \<and> split_on CHR 0x0A (out @ [CHR 0x0A]) = split_on CHR 0x0A out @ [[]]
   \<and> fst (addImportStatements e pattern resourcePath st)
       \<noteq> Inl (NoFilesMatched pattern (path_dirname e resourcePath))"
  using split_on_not_Nil [of "CHR 0x0A" out]
  by (simp add: addImportStatements_def findMatchingFiles_def Let_def length_split_on
      split_on_snoc_separator)

theorem addImportStatements_per_field_witness:
  "execFind no_files_env (path_dirname no_files_env ''/r/main.less'') ''*.less'' = Some []
   \<and> fst (addImportStatements no_files_env ''*.less'' ''/r/main.less'' no_effects)
       = Inr (''@import '' @ [CHR 0x22, CHR 0x22] @ '';'' @ [CHR 0x0A])"
proof -
  have h: "execFind no_files_env (path_dirname no_files_env ''/r/main.less'') ''*.less'' = Some []"
    by (simp add: no_files_env_def node_env_def)
  have k: "importKeyword no_files_env ''/r/main.less'' = ''@import''"
    by code_simp
  show ?thesis
    using h addImportStatements_per_field [OF h, of no_effects] k
    by (simp add: importLine_def)
qed

section \<open>Nested tags\<close>




text \<open>
  A file that injects itself: the recursion ends with the stack overflow, which the
  innermost tag catches, and the loader returns a document.
\<close>

lemma self_inject_run:
  "map_option fst (HtmlInjectorLoader 2 self_env ''<webpack-inject src=\"/s.html\">'' ''/r/index.html'')
     = Some (Inr ''<!-- <webpack-inject src=\"/s.html\"> -->'')
   \<and> map_option fst (HtmlInjectorLoader 3 self_env ''<webpack-inject src=\"/s.html\">'' ''/r/index.html'')
     = Some (Inr ''<!-- <webpack-inject src=\"/s.html\"> -->'')"
  by code_simp

section \<open>Indentation\<close>

text \<open>
  C8. For every match of the pattern in the contents, the leading white space is the
  run of tabs and spaces that the match starts with at the start of a line (empty
  when the match does not start a line), and the replacement spliced in for the tag
  is the replacement (from the verb and the nested pass, or the comment) with
  exactly that white space put before each of its lines; with no leading white
  space it is the replacement itself.
\<close>

theorem replacement_indented:
  assumes "m \<in> set (matchAll contents)"
    and "tagReplacement recur e resourcePath m st = Some (Inr r', st')"
  shows "whitespace m = (if atLineStart contents (index m)
                         then takeWhile isTabOrSpace (drop (index m) contents) else [])
       \<and> (\<exists>r. (tryBlock recur e resourcePath m st = Some (Inr r, st')
                \<or> wrapInCommentSyntax (wholeTag m) resourcePath = Inr r)
              \<and> r' = indentReplacement (whitespace m) r
              \<and> linesOf r' = map ((@) (whitespace m)) (linesOf r)
              \<and> (whitespace m = [] \<longrightarrow> r' = r))"
proof
  from assms(1) have ex: "execAt contents (index m) = Some m"
    unfolding matchAll_def by (rule matchAllFrom_execAt)
  from execAt_fields [OF ex]
  show "whitespace m = (if atLineStart contents (index m)
                         then takeWhile isTabOrSpace (drop (index m) contents) else [])"
    by blast
  have "\<exists>r. (tryBlock recur e resourcePath m st = Some (Inr r, st')
              \<or> wrapInCommentSyntax (wholeTag m) resourcePath = Inr r)
            \<and> r' = indentReplacement (whitespace m) r"
  proof (cases "tryBlock recur e resourcePath m st")
    case None
    with assms(2) show ?thesis
      by (simp add: tagReplacement_def)
  next
    case (Some a)
    obtain res st1 where a: "a = (res, st1)" by (cases a)
    show ?thesis
    proof (cases res)
      case (Inr x)
      with assms(2) Some a have "indentReplacement (whitespace m) x = r'" "st1 = st'"
        by (simp_all add: tagReplacement_def)
      with Some a Inr show ?thesis
        by (intro exI [of _ x]) simp
    next
      case (Inl err)
      with assms(2) Some a obtain x where x: "wrapInCommentSyntax (wholeTag m) resourcePath = Inr x"
        and "indentReplacement (whitespace m) x = r'"
        by (cases "wrapInCommentSyntax (wholeTag m) resourcePath")
           (simp_all add: tagReplacement_def Let_def)
      then show ?thesis
        by (intro exI [of _ x]) simp
    qed
  qed
  then obtain r where r: "tryBlock recur e resourcePath m st = Some (Inr r, st')
      \<or> wrapInCommentSyntax (wholeTag m) resourcePath = Inr r"
    and r': "r' = indentReplacement (whitespace m) r"
    by (elim exE conjE)
  have l: "linesOf r' = map ((@) (whitespace m)) (linesOf r)"
  proof (cases "whitespace m = []")
    case True
    with map_append_Nil [of "linesOf r"] show ?thesis
      unfolding r' indentReplacement_def by simp
  next
    case False
    with linesOf_indentLines [OF whitespace_no_terminator [OF assms(1)], of r] show ?thesis
      unfolding r' indentReplacement_def by simp
  qed
  have w: "whitespace m = [] \<longrightarrow> r' = r"
    unfolding r' indentReplacement_def by simp
  show "\<exists>r. (tryBlock recur e resourcePath m st = Some (Inr r, st')
                \<or> wrapInCommentSyntax (wholeTag m) resourcePath = Inr r)
              \<and> r' = indentReplacement (whitespace m) r
              \<and> linesOf r' = map ((@) (whitespace m)) (linesOf r)
              \<and> (whitespace m = [] \<longrightarrow> r' = r)"
    by (intro exI [of _ r] conjI) (fact r r' l w)+
qed

theorem replacement_indented_witness:
  "list_tag \<in> set (matchAll list_doc)
   \<and> tagReplacement (parseAndReplace 1 nav_env) nav_env ''/r/index.html'' list_tag no_effects
     = Some (Inr list_replacement, nav_effects)
   \<and> (\<exists>r. list_replacement = indentReplacement (whitespace list_tag) r
            \<and> linesOf list_replacement = map ((@) (whitespace list_tag)) (linesOf r))"
proof -
  have a: "list_tag \<in> set (matchAll list_doc)"
    by (simp add: list_doc_matches)
  have b: "tagReplacement (parseAndReplace 1 nav_env) nav_env ''/r/index.html'' list_tag no_effects
     = Some (Inr list_replacement, nav_effects)"
    by code_simp
  from replacement_indented [OF a b] a b show ?thesis
    by blast
qed

section \<open>The splice\<close>

text \<open>
  C6. When the loop comes to the match number \<open>i\<close> with the contents \<open>c\<close> (what the
  replacements of the matches before it made of the document), the text of the
  match occurs in \<open>c\<close>: \<^verbatim>\<open>indexOf\<close> returns the index \<open>k\<close> of its first
  occurrence, not -1, and the splice puts the replacement in the place of exactly
  that occurrence, keeping the \<open>k\<close> code units before it and all those behind it;
  this is how the loop gets from \<open>c\<close> to the contents after the match.
\<close>

theorem splice_first_occurrence:
  assumes "i < length (matchAll doc)"
    and "forMatches (parseAndReplace n e) e resourcePath (take i (matchAll doc)) doc st
         = Some (Inr c, st')"
  shows "\<exists>k. indexOf c (wholeTag (matchAll doc ! i)) = int k
            \<and> prefix (wholeTag (matchAll doc ! i)) (drop k c)
            \<and> (\<forall>j<k. \<not> prefix (wholeTag (matchAll doc ! i)) (drop j c))
            \<and> (\<forall>r. spliceTag c (wholeTag (matchAll doc ! i)) r
                     = take k c @ r @ drop (k + length (wholeTag (matchAll doc ! i))) c)
            \<and> (\<forall>c2 st2.
                  forMatches (parseAndReplace n e) e resourcePath (take (Suc i) (matchAll doc)) doc st
                    = Some (Inr c2, st2) \<longrightarrow>
                  (\<exists>r. tagReplacement (parseAndReplace n e) e resourcePath (matchAll doc ! i) st'
                         = Some (Inr r, st2)
                       \<and> c2 = take k c @ r @ drop (k + length (wholeTag (matchAll doc ! i))) c))"
proof -
  define m where "m = matchAll doc ! i"
  have "suffix (drop 0 doc) doc"
    by simp
  from forMatches_keeps_rest [OF this assms(1) [unfolded matchAll_def] assms(2) [unfolded matchAll_def]]
  have inv: "suffix (drop (index m) doc) c"
    unfolding m_def matchAll_def .
  from assms(1) have "m \<in> set (matchAll doc)"
    unfolding m_def by simp
  then have "execAt doc (index m) = Some m"
    unfolding matchAll_def by (rule matchAllFrom_execAt)
  from execAt_fields [OF this] obtain l where "wholeTag m = take l (drop (index m) doc)"
    by blast
  then have "prefix (wholeTag m) (drop (index m) doc)"
    by (simp add: take_is_prefix)
  with inv obtain pre where "c = pre @ drop (index m) doc"
    and "prefix (wholeTag m) (drop (length pre) c)"
    by (auto simp: suffix_def)
  from indexOf_found [OF this(2)] obtain k where k: "indexOf c (wholeTag m) = int k"
    by blast
  have step: "\<exists>r. tagReplacement (parseAndReplace n e) e resourcePath m st' = Some (Inr r, st2)
                 \<and> c2 = take k c @ r @ drop (k + length (wholeTag m)) c"
    if "forMatches (parseAndReplace n e) e resourcePath (take (Suc i) (matchAll doc)) doc st
          = Some (Inr c2, st2)" for c2 st2
  proof -
    from assms(1) have "take (Suc i) (matchAll doc) = take i (matchAll doc) @ [m]"
      unfolding m_def by (rule take_Suc_conv_app_nth)
    with that have "forMatches (parseAndReplace n e) e resourcePath (take i (matchAll doc) @ [m]) doc st
          = Some (Inr c2, st2)"
      by simp
    from forMatches_snoc [OF assms(2) this] show ?thesis
      unfolding spliceTag_found [OF k] .
  qed
  from indexOf_first [OF k] have "prefix (wholeTag m) (drop k c)"
    and "\<forall>j<k. \<not> prefix (wholeTag m) (drop j c)"
    by blast+
  with k spliceTag_found [OF k] step show ?thesis
    unfolding m_def by (intro exI [of _ k]) blast
qed

theorem splice_first_occurrence_witness:
  "1 < length (matchAll comments_doc)
   \<and> forMatches (parseAndReplace 0 nav_env) nav_env ''/r/index.html''
       (take 1 (matchAll comments_doc)) comments_doc no_effects
     = Some (Inr comments_step, foo_failed)
   \<and> indexOf comments_step (wholeTag (matchAll comments_doc ! 1)) = 30
   \<and> (\<exists>k. \<forall>r. spliceTag comments_step (wholeTag (matchAll comments_doc ! 1)) r
                 = take k comments_step @ r
                   @ drop (k + length (wholeTag (matchAll comments_doc ! 1))) comments_step)"
proof -
  have a: "1 < length (matchAll comments_doc)"
    by code_simp
  have b: "forMatches (parseAndReplace 0 nav_env) nav_env ''/r/index.html''
       (take 1 (matchAll comments_doc)) comments_doc no_effects
     = Some (Inr comments_step, foo_failed)"
    by code_simp
  have c: "indexOf comments_step (wholeTag (matchAll comments_doc ! 1)) = 30"
    by code_simp
  from splice_first_occurrence [OF a b] a b c show ?thesis
    by blast
qed

section \<open>A document without tags\<close>

text \<open>
  C9. A contents string in which the tag pattern has no match comes back unchanged
  from the substitution pass, with no effect, whatever the resource path and the
  environment; so a second pass over an output without tags is the identity.
\<close>

theorem parseAndReplace_no_tags:
  "matchAll contents = [] \<Longrightarrow>
   parseAndReplace (Suc n) e contents resourcePath st = Some (Inr contents, st)"
  by simp

theorem parseAndReplace_no_tags_witness:
  "matchAll ''<p>hello</p>'' = [] \<and>
   parseAndReplace (Suc 0) nav_env ''<p>hello</p>'' ''/r/index.html'' no_effects
   = Some (Inr ''<p>hello</p>'', no_effects)"
proof -
  have h: "matchAll ''<p>hello</p>'' = []"
    by code_simp
  show ?thesis
    using h parseAndReplace_no_tags [OF h, of 0 nav_env "''/r/index.html''" no_effects]
    by simp
qed

end
